theory Spec2Isabelle
  imports Main "HOL-Library.Word" "HOL-Library.Multiset"
begin

unbundle bit_operations_syntax

section \<open>Python values\<close>

text \<open>
  A Python \<open>str\<close> is a sequence of Unicode code points, a \<open>bytes\<close> object a sequence of
  numbers below 256. Both are lists of naturals here; \<open>str\<close> turns an ASCII literal into
  its code points, which are also its bytes. File names are kept as HOL strings.
\<close>

type_synonym pystr = "nat list"
type_synonym bytes = "nat list"
type_synonym u32 = "32 word"

definition str :: "string \<Rightarrow> nat list" where
  "str s = map of_char s"

text \<open>The exceptions the modelled code can raise. All of them derive from \<open>Exception\<close>.\<close>

datatype exn = FileNotFoundError | PermissionError | UnicodeEncodeError | ValueError | OtherError

section \<open>\<open>str.encode('utf-16le')\<close> and \<open>str.encode('utf-8')\<close>\<close>

text \<open>
  A code point of the basic plane is two bytes, low byte first; a code point above it is a
  surrogate pair; a surrogate code point (U+D800 to U+DFFF) on its own cannot be encoded
  and raises \<open>UnicodeEncodeError\<close>. No \<open>str\<close> holds a number from 0x110000 on; the
  model rejects it as well.
\<close>

definition is_surrogate :: "nat \<Rightarrow> bool" where
  "is_surrogate cp \<longleftrightarrow> 0xD800 \<le> cp \<and> cp < 0xE000"

definition le16 :: "nat \<Rightarrow> bytes" where
  "le16 v = [v mod 256, v div 256]"

definition utf16le_char :: "nat \<Rightarrow> exn + bytes" where
  "utf16le_char cp =
     (if is_surrogate cp \<or> 0x110000 \<le> cp then Inl UnicodeEncodeError
      else if cp < 0x10000 then Inr (le16 cp)
      else Inr (le16 (0xD800 + (cp - 0x10000) div 1024) @ le16 (0xDC00 + (cp - 0x10000) mod 1024)))"

fun encode_utf16le :: "pystr \<Rightarrow> exn + bytes" where
  "encode_utf16le [] = Inr []"
| "encode_utf16le (c # cs) =
     (case utf16le_char c of
        Inl e \<Rightarrow> Inl e
      | Inr b \<Rightarrow> (case encode_utf16le cs of Inl e \<Rightarrow> Inl e | Inr bs \<Rightarrow> Inr (b @ bs)))"

definition utf8_char :: "nat \<Rightarrow> exn + bytes" where
  "utf8_char cp =
     (if is_surrogate cp \<or> 0x110000 \<le> cp then Inl UnicodeEncodeError
      else if cp < 0x80 then Inr [cp]
      else if cp < 0x800 then Inr [0xC0 + cp div 64, 0x80 + cp mod 64]
      else if cp < 0x10000 then Inr [0xE0 + cp div 4096, 0x80 + cp div 64 mod 64, 0x80 + cp mod 64]
      else Inr [0xF0 + cp div 262144, 0x80 + cp div 4096 mod 64, 0x80 + cp div 64 mod 64,
                0x80 + cp mod 64])"

fun encode_utf8 :: "pystr \<Rightarrow> exn + bytes" where
  "encode_utf8 [] = Inr []"
| "encode_utf8 (c # cs) =
     (case utf8_char c of
        Inl e \<Rightarrow> Inl e
      | Inr b \<Rightarrow> (case encode_utf8 cs of Inl e \<Rightarrow> Inl e | Inr bs \<Rightarrow> Inr (b @ bs)))"

section \<open>\<open>hashlib.new('md4', data)\<close>: MD4 as in RFC 1320\<close>

definition md4_F :: "u32 \<Rightarrow> u32 \<Rightarrow> u32 \<Rightarrow> u32" where
  "md4_F x y z = (x AND y) OR (NOT x AND z)"

definition md4_G :: "u32 \<Rightarrow> u32 \<Rightarrow> u32 \<Rightarrow> u32" where
  "md4_G x y z = (x AND y) OR (x AND z) OR (y AND z)"

definition md4_H :: "u32 \<Rightarrow> u32 \<Rightarrow> u32 \<Rightarrow> u32" where
  "md4_H x y z = x XOR y XOR z"

definition rotl32 :: "nat \<Rightarrow> u32 \<Rightarrow> u32" where
  "rotl32 s x = push_bit s x OR drop_bit (32 - s) x"

text \<open>
  One round is sixteen operations \<open>a = (a + f(b,c,d) + X[k] + t) <<< s\<close>, the four
  registers taking turns; the state is rotated after each operation, so that the register
  to update is always the first one. \<open>(k, s)\<close> is the message word and the shift.
\<close>

fun md4_round :: "(u32 \<Rightarrow> u32 \<Rightarrow> u32 \<Rightarrow> u32) \<Rightarrow> u32 \<Rightarrow> u32 list \<Rightarrow> (nat \<times> nat) list \<Rightarrow>
    u32 \<times> u32 \<times> u32 \<times> u32 \<Rightarrow> u32 \<times> u32 \<times> u32 \<times> u32" where
  "md4_round f t X [] st = st"
| "md4_round f t X ((k, s) # ks) (a, b, c, d) =
     md4_round f t X ks (d, rotl32 s (a + f b c d + X ! k + t), b, c)"

definition round1 :: "(nat \<times> nat) list" where
  "round1 = [(0,3),(1,7),(2,11),(3,19),(4,3),(5,7),(6,11),(7,19),
             (8,3),(9,7),(10,11),(11,19),(12,3),(13,7),(14,11),(15,19)]"

definition round2 :: "(nat \<times> nat) list" where
  "round2 = [(0,3),(4,5),(8,9),(12,13),(1,3),(5,5),(9,9),(13,13),
             (2,3),(6,5),(10,9),(14,13),(3,3),(7,5),(11,9),(15,13)]"

definition round3 :: "(nat \<times> nat) list" where
  "round3 = [(0,3),(8,9),(4,11),(12,15),(2,3),(10,9),(6,11),(14,15),
             (1,3),(9,9),(5,11),(13,15),(3,3),(11,9),(7,11),(15,15)]"

fun le32 :: "bytes \<Rightarrow> u32" where
  "le32 [b0, b1, b2, b3] =
     of_nat b0 OR push_bit 8 (of_nat b1) OR push_bit 16 (of_nat b2) OR push_bit 24 (of_nat b3)"
| "le32 _ = 0"

fun chunks :: "nat \<Rightarrow> nat \<Rightarrow> 'a list \<Rightarrow> 'a list list" where
  "chunks w 0 xs = []"
| "chunks w (Suc n) xs = take w xs # chunks w n (drop w xs)"

fun md4_add :: "u32 \<times> u32 \<times> u32 \<times> u32 \<Rightarrow> u32 \<times> u32 \<times> u32 \<times> u32 \<Rightarrow> u32 \<times> u32 \<times> u32 \<times> u32" where
  "md4_add (A, B, C, D) (a, b, c, d) = (A + a, B + b, C + c, D + d)"

definition md4_rounds :: "u32 list \<Rightarrow> u32 \<times> u32 \<times> u32 \<times> u32 \<Rightarrow> u32 \<times> u32 \<times> u32 \<times> u32" where
  "md4_rounds X st = md4_round md4_H 0x6ED9EBA1 X round3
                       (md4_round md4_G 0x5A827999 X round2
                         (md4_round md4_F 0 X round1 st))"

definition md4_compress :: "u32 \<times> u32 \<times> u32 \<times> u32 \<Rightarrow> bytes \<Rightarrow> u32 \<times> u32 \<times> u32 \<times> u32" where
  "md4_compress st blk = md4_add st (md4_rounds (map le32 (chunks 4 16 blk)) st)"

fun md4_blocks :: "u32 \<times> u32 \<times> u32 \<times> u32 \<Rightarrow> bytes list \<Rightarrow> u32 \<times> u32 \<times> u32 \<times> u32" where
  "md4_blocks st [] = st"
| "md4_blocks st (blk # blks) = md4_blocks (md4_compress st blk) blks"

fun le_bytes :: "nat \<Rightarrow> nat \<Rightarrow> bytes" where
  "le_bytes 0 v = []"
| "le_bytes (Suc n) v = v mod 256 # le_bytes n (v div 256)"

text \<open>Padding: a byte 0x80, zeros up to 56 modulo 64, the length in bits on eight bytes.\<close>

definition md4_pad :: "bytes \<Rightarrow> bytes" where
  "md4_pad m = m @ [0x80] @ replicate ((119 - length m mod 64) mod 64) 0
                 @ le_bytes 8 (8 * length m)"

fun md4_output :: "u32 \<times> u32 \<times> u32 \<times> u32 \<Rightarrow> bytes" where
  "md4_output (A, B, C, D) =
     le_bytes 4 (unat A) @ le_bytes 4 (unat B) @ le_bytes 4 (unat C) @ le_bytes 4 (unat D)"

definition md4 :: "bytes \<Rightarrow> bytes" where
  "md4 m = md4_output (md4_blocks (0x67452301, 0xEFCDAB89, 0x98BADCFE, 0x10325476)
                         (chunks 64 (length (md4_pad m) div 64) (md4_pad m)))"

text \<open>\<open>.hexdigest()\<close>: two lowercase hexadecimal digits for each byte, as a \<open>str\<close>.\<close>

definition hex_digit :: "nat \<Rightarrow> nat" where
  "hex_digit n = (if n < 10 then 48 + n else 87 + n)"

fun hexdigest :: "bytes \<Rightarrow> pystr" where
  "hexdigest [] = []"
| "hexdigest (b # bs) = hex_digit (b div 16) # hex_digit (b mod 16) # hexdigest bs"

text \<open>
  \<open>str.upper()\<close> on the ASCII range, which is all that \<open>hexdigest\<close> produces
  (lemma \<open>hexdigest_ascii\<close> below): the letters a to z lose 32, the rest is kept.
\<close>

definition upper_char :: "nat \<Rightarrow> nat" where
  "upper_char c = (if 97 \<le> c \<and> c \<le> 122 then c - 32 else c)"

definition upper :: "pystr \<Rightarrow> pystr" where
  "upper s = map upper_char s"

text \<open>
  The digest of line 50:
  \<open>hashlib.new('md4', pwd.encode('utf-16le')).hexdigest().upper().encode('utf-8')\<close>.
\<close>

definition ntlm_hash :: "pystr \<Rightarrow> exn + bytes" where
  "ntlm_hash pwd =
     (case encode_utf16le pwd of
        Inl e \<Rightarrow> Inl e
      | Inr data \<Rightarrow> encode_utf8 (upper (hexdigest (md4 data))))"

section \<open>Table files and the rainbow directory\<close>

text \<open>
  \<open>bytes.strip()\<close> removes the ASCII whitespace bytes (space, tab, line feed, vertical
  tab, form feed, carriage return) from both ends. Iterating over a file opened in binary
  mode yields its lines, each one ending after a line feed.
\<close>

definition is_space_byte :: "nat \<Rightarrow> bool" where
  "is_space_byte b \<longleftrightarrow> b = 32 \<or> (9 \<le> b \<and> b \<le> 13)"

definition bytes_strip :: "bytes \<Rightarrow> bytes" where
  "bytes_strip b = rev (dropWhile is_space_byte (rev (dropWhile is_space_byte b)))"

fun file_lines :: "bytes \<Rightarrow> bytes \<Rightarrow> bytes list" where
  "file_lines cur [] = (if cur = [] then [] else [cur])"
| "file_lines cur (b # bs) =
     (if b = 10 then (cur @ [b]) # file_lines [] bs else file_lines (cur @ [b]) bs)"

definition precomputed_hashes :: "bytes \<Rightarrow> bytes set" where
  "precomputed_hashes content = set (map bytes_strip (file_lines [] content))"

text \<open>
  The state of the rainbow directory, as \<open>os.listdir\<close>, \<open>os.path.isfile\<close> and \<open>open\<close>
  see it: \<open>os.listdir\<close> raises (\<open>FileNotFoundError\<close> when the directory is missing) or
  yields the entries in an order of its own; an entry is a regular file, which \<open>open\<close>
  and the read either fail on or yield the content of, or something else.
\<close>

datatype node = File "exn + bytes" | NotFile

datatype directory = ListError exn | Listing "(string \<times> node) list"

definition listdir :: "directory \<Rightarrow> exn + (string \<times> node) list" where
  "listdir fs = (case fs of ListError e \<Rightarrow> Inl e | Listing entries \<Rightarrow> Inr entries)"

definition isfile :: "node \<Rightarrow> bool" where
  "isfile nd = (case nd of File r \<Rightarrow> True | NotFile \<Rightarrow> False)"

definition open_rb :: "node \<Rightarrow> exn + bytes" where
  "open_rb nd = (case nd of File r \<Rightarrow> r | NotFile \<Rightarrow> Inl OtherError)"

text \<open>\<open>os.path.join\<close> and \<open>os.path.basename\<close> of \<open>posixpath\<close>.\<close>

definition path_join :: "string \<Rightarrow> string \<Rightarrow> string" where
  "path_join a b =
     (if b \<noteq> [] \<and> hd b = CHR ''/'' then b
      else if a = [] \<or> last a = CHR ''/'' then a @ b
      else a @ ''/'' @ b)"

definition basename :: "string \<Rightarrow> string" where
  "basename p = rev (takeWhile (\<lambda>c. c \<noteq> CHR ''/'') (rev p))"

text \<open>
  A \<open>dict\<close> keeps its keys in insertion order; storing under a key that is present
  replaces the value and leaves the key where it is.
\<close>

fun dict_set :: "('k \<times> 'v) list \<Rightarrow> 'k \<Rightarrow> 'v \<Rightarrow> ('k \<times> 'v) list" where
  "dict_set [] k v = [(k, v)]"
| "dict_set ((k', v') # d) k v =
     (if k' = k then (k', v) # d else (k', v') # dict_set d k v)"

datatype log_msg =
    RainbowDirectoryNotFound string
  | ErrorProcessingRainbowTables exn
  | CombinedOutputNotFound
  | CombinedOutputNotDecoded
  | NoPasswordsFound

text \<open>
  What a call of \<open>check_rainbow_table\<close> leaves behind: the dictionary it returns, the
  paths it has opened and read, and what it has logged.
\<close>

record run =
  cracked_passwords :: "(pystr \<times> string) list"
  opened :: "string list"
  logged :: "log_msg list"

section \<open>\<open>check_rainbow_table\<close>\<close>

text \<open>
  The loop over the passwords (lines 49 to 52). An exception leaves the loop with the
  dictionary as it is at that moment.
\<close>

fun scan_passwords :: "bytes set \<Rightarrow> string \<Rightarrow> pystr list \<Rightarrow> (pystr \<times> string) list \<Rightarrow>
    (pystr \<times> string) list \<times> exn option" where
  "scan_passwords precomputed file_path [] cracked = (cracked, None)"
| "scan_passwords precomputed file_path (pwd # pwds) cracked =
     (case ntlm_hash pwd of
        Inl e \<Rightarrow> (cracked, Some e)
      | Inr h \<Rightarrow>
          scan_passwords precomputed file_path pwds
            (if h \<in> precomputed then dict_set cracked pwd (basename file_path) else cracked))"

text \<open>The loop over the files (lines 46 to 52).\<close>

fun scan_files :: "(string \<times> node) list \<Rightarrow> pystr list \<Rightarrow> run \<Rightarrow> run \<times> exn option" where
  "scan_files [] passwords st = (st, None)"
| "scan_files ((file_path, nd) # rest) passwords st =
     (case open_rb nd of
        Inl e \<Rightarrow> (st, Some e)
      | Inr content \<Rightarrow>
          (case scan_passwords (precomputed_hashes content) file_path passwords
                  (cracked_passwords st) of
             (c, Some e) \<Rightarrow>
               (st\<lparr>cracked_passwords := c, opened := opened st @ [file_path]\<rparr>, Some e)
           | (c, None) \<Rightarrow>
               scan_files rest passwords
                 (st\<lparr>cracked_passwords := c, opened := opened st @ [file_path]\<rparr>)))"

text \<open>Line 45: the entries that are regular files, joined to the directory, in listing order.\<close>

definition rainbow_files :: "string \<Rightarrow> (string \<times> node) list \<Rightarrow> (string \<times> node) list" where
  "rainbow_files rainbow_directory entries =
     map (\<lambda>(file_name, nd). (path_join rainbow_directory file_name, nd))
       (filter (\<lambda>(file_name, nd). isfile nd) entries)"

definition try_block :: "pystr list \<Rightarrow> string \<Rightarrow> directory \<Rightarrow> run \<times> exn option" where
  "try_block passwords rainbow_directory fs =
     (case listdir fs of
        Inl e \<Rightarrow> (\<lparr>cracked_passwords = [], opened = [], logged = []\<rparr>, Some e)
      | Inr entries \<Rightarrow>
          scan_files (rainbow_files rainbow_directory entries) passwords
            \<lparr>cracked_passwords = [], opened = [], logged = []\<rparr>)"

text \<open>
  The two handlers of lines 53 to 56 log and fall through to the \<open>return\<close> of line 57.
\<close>

definition check_rainbow_table :: "pystr list \<Rightarrow> string \<Rightarrow> directory \<Rightarrow> run" where
  "check_rainbow_table passwords rainbow_directory fs =
     (case try_block passwords rainbow_directory fs of
        (st, None) \<Rightarrow> st
      | (st, Some e) \<Rightarrow>
          (if e = FileNotFoundError
           then st\<lparr>logged := [RainbowDirectoryNotFound rainbow_directory]\<rparr>
           else st\<lparr>logged := [ErrorProcessingRainbowTables e]\<rparr>))"

section \<open>The entry point of \<open>process.py\<close>\<close>

text \<open>
  \<open>str.strip()\<close> removes the characters for which \<open>str.isspace\<close> holds from both ends.
  \<open>readlines\<close> in text mode ends a line at \<open>\n\<close>, \<open>\r\<close> or \<open>\r\n\<close>, each
  of them read as \<open>\n\<close>.
\<close>

definition is_space :: "nat \<Rightarrow> bool" where
  "is_space c \<longleftrightarrow>
     (9 \<le> c \<and> c \<le> 13) \<or> (28 \<le> c \<and> c \<le> 32) \<or> c = 0x85 \<or> c = 0xA0 \<or> c = 0x1680 \<or>
     (0x2000 \<le> c \<and> c \<le> 0x200A) \<or> c = 0x2028 \<or> c = 0x2029 \<or> c = 0x202F \<or>
     c = 0x205F \<or> c = 0x3000"

definition strip :: "pystr \<Rightarrow> pystr" where
  "strip s = rev (dropWhile is_space (rev (dropWhile is_space s)))"

fun readlines :: "pystr \<Rightarrow> pystr \<Rightarrow> pystr list" where
  "readlines cur [] = (if cur = [] then [] else [cur])"
| "readlines cur (c # cs) =
     (if c = 13 \<and> cs \<noteq> [] \<and> hd cs = 10 then (cur @ [10]) # readlines [] (tl cs)
      else if c = 13 \<or> c = 10 then (cur @ [10]) # readlines [] cs
      else readlines (cur @ [c]) cs)"

text \<open>Line 209: the stripped lines that are not empty.\<close>

definition read_passwords :: "pystr \<Rightarrow> pystr list" where
  "read_passwords text = filter (\<lambda>l. l \<noteq> []) (map strip (readlines [] text))"

text \<open>
  \<open>analyze_passwords\<close> calls \<open>check_rainbow_table(passwords, "rainbow")\<close> at line 164.
  The statements before the call (the dictionary, the report file, the statistics and
  the plots of lines 84 to 160) and after it (lines 165 to 202) are numerical and
  graphical output in the environment; of them the model keeps what they raise, if
  anything: \<open>before\<close> and \<open>after\<close>. Nothing in \<open>analyze_passwords\<close> catches an
  exception, so one raised before line 164 ends the function with no table read, and one
  raised after it ends the function with the tables read.
\<close>

datatype outcome = Uncaught exn "run option" | Logged log_msg | Analyzed run

definition analyze_passwords ::
    "exn option \<Rightarrow> exn option \<Rightarrow> pystr list \<Rightarrow> directory \<Rightarrow> outcome" where
  "analyze_passwords before after passwords fs =
     (case before of
        Some e \<Rightarrow> Uncaught e None
      | None \<Rightarrow>
          (case after of
             Some e \<Rightarrow> Uncaught e (Some (check_rainbow_table passwords ''rainbow'' fs))
           | None \<Rightarrow> Analyzed (check_rainbow_table passwords ''rainbow'' fs)))"

text \<open>
  Lines 206 to 217. Reading \<open>combined_output.txt\<close> yields its text or raises; a
  \<open>FileNotFoundError\<close> and a \<open>ValueError\<close> (a text that is not UTF-8 raises one) are
  logged, any other exception leaves the program. An empty list of passwords raises the
  \<open>ValueError\<close> of line 211, logged by the same handler. The analysis runs in the
  \<open>else\<close> branch only, outside the handlers.
\<close>

definition main :: "exn option \<Rightarrow> exn option \<Rightarrow> exn + pystr \<Rightarrow> directory \<Rightarrow> outcome" where
  "main before after combined_output fs =
     (case combined_output of
        Inl e \<Rightarrow>
          (if e = FileNotFoundError then Logged CombinedOutputNotFound
           else if e = ValueError then Logged CombinedOutputNotDecoded
           else Uncaught e None)
      | Inr text \<Rightarrow>
          (if read_passwords text = [] then Logged NoPasswordsFound
           else analyze_passwords before after (read_passwords text) fs))"

text \<open>The table files a run of the program has read, and the dictionary it has computed.\<close>

definition tables_opened :: "outcome \<Rightarrow> string list" where
  "tables_opened out =
     (case out of
        Analyzed r \<Rightarrow> opened r
      | Uncaught e (Some r) \<Rightarrow> opened r
      | _ \<Rightarrow> [])"

definition classification :: "outcome \<Rightarrow> (pystr \<times> string) list option" where
  "classification out =
     (case out of
        Analyzed r \<Rightarrow> Some (cracked_passwords r)
      | Uncaught e (Some r) \<Rightarrow> Some (cracked_passwords r)
      | _ \<Rightarrow> None)"

section \<open>\<open>strength_check\<close>\<close>

text \<open>
  \<open>str.isupper\<close>, \<open>islower\<close>, \<open>isdigit\<close> and \<open>isalnum\<close> of a single character: fixed on
  ASCII, read from the Unicode character database beyond it. The database is not part of
  the repository and is a parameter.
\<close>

record unicode_db =
  ucd_upper :: "nat \<Rightarrow> bool"
  ucd_lower :: "nat \<Rightarrow> bool"
  ucd_digit :: "nat \<Rightarrow> bool"
  ucd_alnum :: "nat \<Rightarrow> bool"

definition isupper :: "unicode_db \<Rightarrow> nat \<Rightarrow> bool" where
  "isupper U c = (if c < 128 then 65 \<le> c \<and> c \<le> 90 else ucd_upper U c)"

definition islower :: "unicode_db \<Rightarrow> nat \<Rightarrow> bool" where
  "islower U c = (if c < 128 then 97 \<le> c \<and> c \<le> 122 else ucd_lower U c)"

definition isdigit :: "unicode_db \<Rightarrow> nat \<Rightarrow> bool" where
  "isdigit U c = (if c < 128 then 48 \<le> c \<and> c \<le> 57 else ucd_digit U c)"

definition isalnum :: "unicode_db \<Rightarrow> nat \<Rightarrow> bool" where
  "isalnum U c =
     (if c < 128 then (65 \<le> c \<and> c \<le> 90) \<or> (97 \<le> c \<and> c \<le> 122) \<or> (48 \<le> c \<and> c \<le> 57)
      else ucd_alnum U c)"

definition strength_check :: "unicode_db \<Rightarrow> pystr \<Rightarrow> string" where
  "strength_check U password =
     (if length password < 8 then ''Weak''
      else if list_ex (isupper U) password \<and> list_ex (islower U) password \<and>
              list_ex (isdigit U) password \<and> list_ex (\<lambda>c. \<not> isalnum U c) password
        then ''Strong''
      else if (list_ex (isupper U) password \<or> list_ex (islower U) password) \<and>
              (list_ex (isdigit U) password \<or> list_ex (\<lambda>c. \<not> isalnum U c) password)
        then ''Medium''
      else ''Weak'')"

section \<open>\<open>convert_and_combine\<close> of \<open>files.py\<close>\<close>












section \<open>Notions used to state the properties\<close>

text \<open>
  A credential is encodable when \<open>encode('utf-16le')\<close> succeeds on it; a file opens
  when \<open>open\<close> and the read succeed; a credential is in a table when the file opens and
  the credential's digest is one of its stripped lines. The processed tables are the
  regular files of the listing up to the first that fails to open.
\<close>

definition encodable :: "pystr \<Rightarrow> bool" where
  "encodable pwd = (case encode_utf16le pwd of Inl e \<Rightarrow> False | Inr b \<Rightarrow> True)"

definition opens :: "node \<Rightarrow> bool" where
  "opens nd = (case open_rb nd of Inl e \<Rightarrow> False | Inr content \<Rightarrow> True)"

definition in_table :: "pystr \<Rightarrow> node \<Rightarrow> bool" where
  "in_table pwd nd =
     (case open_rb nd of
        Inl e \<Rightarrow> False
      | Inr content \<Rightarrow>
          (case ntlm_hash pwd of Inl e \<Rightarrow> False | Inr h \<Rightarrow> h \<in> precomputed_hashes content))"

definition processed :: "string \<Rightarrow> (string \<times> node) list \<Rightarrow> (string \<times> node) list" where
  "processed rainbow_directory entries =
     takeWhile (\<lambda>(file_path, nd). opens nd) (rainbow_files rainbow_directory entries)"

text \<open>
  Following the specification of the Digest Transform: "format the result as an uppercase
  hexadecimal string", two digits from \<open>0123456789ABCDEF\<close> for each byte.
\<close>

definition uppercase_hex_digit :: "nat \<Rightarrow> nat" where
  "uppercase_hex_digit n = (if n < 10 then 48 + n else 55 + n)"

fun uppercase_hex :: "bytes \<Rightarrow> bytes" where
  "uppercase_hex [] = []"
| "uppercase_hex (b # bs) =
     uppercase_hex_digit (b div 16) # uppercase_hex_digit (b mod 16) # uppercase_hex bs"

text \<open>
  Data of the scenarios: table files of one line, holding the digest of "password", of
  "abc123", or both, and a credential made of one lone surrogate.
\<close>

definition table_password :: node where
  "table_password = File (Inr (str ''8846F7EAEE8FB117AD06BDD830B7586C'' @ [10]))"

definition table_abc123 :: node where
  "table_abc123 = File (Inr (str ''F9E37E83B83C47A93C2F09F66408631B'' @ [10]))"

definition table_both :: node where
  "table_both = File (Inr (str ''8846F7EAEE8FB117AD06BDD830B7586C'' @ [10] @
                           str ''F9E37E83B83C47A93C2F09F66408631B'' @ [10]))"

definition lone_surrogate :: pystr where
  "lone_surrogate = [0xD800]"

section \<open>Evaluating the digest\<close>

lemma chunks_numeral:
  "chunks w (numeral n) xs = take w xs # chunks w (pred_numeral n) (drop w xs)"
  by (simp add: numeral_eq_Suc[of n])

lemma chunks_1: "chunks w 1 xs = [take w xs]"
  using chunks.simps(2)[of w 0 xs] by simp

lemma le_bytes_numeral:
  "le_bytes (numeral n) v = v mod 256 # le_bytes (pred_numeral n) (v div 256)"
  by (simp add: numeral_eq_Suc[of n])

lemma replicate_numeral: "replicate (numeral n) x = x # replicate (pred_numeral n) x"
  by (simp add: numeral_eq_Suc[of n])

lemma md4_round_norm:
  "md4_round f t X ((k, s) # ks) (a, b, c, d) =
     md4_round f t X ks (d, of_nat (unat (rotl32 s (a + f b c d + X ! k + t))), b, c)"
  by simp

lemmas md4_eval = md4_round.simps(1) md4_round_norm md4_def md4_pad_def md4_compress_def
  md4_rounds_def round1_def round2_def round3_def md4_F_def md4_G_def md4_H_def rotl32_def
  chunks_numeral chunks_1 le_bytes_numeral replicate_numeral hex_digit_def

text \<open>Test vectors of RFC 1320, section A.5.\<close>

lemma md4_rfc1320_empty: "hexdigest (md4 []) = str ''31d6cfe0d16ae931b73c59d7e0c089c0''"
  by (simp del: md4_round.simps add: md4_eval str_def)

lemma md4_rfc1320_abc: "hexdigest (md4 (str ''abc'')) = str ''a448017aaf21d8525fc10ae87aa6729d''"
  by (simp del: md4_round.simps add: md4_eval str_def)

lemma md4_rfc1320_two_blocks:
  "hexdigest (md4 (str ''12345678901234567890123456789012345678901234567890123456789012345678901234567890''))
     = str ''e33b4ddc9c38f2199c3e7b164fcc0536''"
  by (simp del: md4_round.simps add: md4_eval str_def)

text \<open>The digests of the scenarios' credentials.\<close>

lemmas ntlm_eval = ntlm_hash_def md4_eval str_def utf16le_char_def is_surrogate_def le16_def
  utf8_char_def upper_def upper_char_def

lemma ntlm_password:
  "ntlm_hash (str ''password'') = Inr (str ''8846F7EAEE8FB117AD06BDD830B7586C'')"
  by (simp del: md4_round.simps add: ntlm_eval)

lemma ntlm_abc123:
  "ntlm_hash (str ''abc123'') = Inr (str ''F9E37E83B83C47A93C2F09F66408631B'')"
  by (simp del: md4_round.simps add: ntlm_eval)

lemma ntlm_Tr0ub4dor:
  "ntlm_hash (str ''Tr0ub4dor&3'') = Inr (str ''24D9C99595080B241B3B4EB0CBA8D8F4'')"
  by (simp del: md4_round.simps add: ntlm_eval)

lemma ntlm_lone_surrogate: "ntlm_hash lone_surrogate = Inl UnicodeEncodeError"
  by (simp add: ntlm_hash_def lone_surrogate_def utf16le_char_def is_surrogate_def)

lemma str_inject: "str a = str b \<longleftrightarrow> a = b"
proof -
  have "inj (of_char :: char \<Rightarrow> nat)" by (simp add: inj_on_def)
  then show ?thesis by (simp add: str_def inj_map_eq_map)
qed

section \<open>Dictionaries\<close>

lemma map_of_dict_set: "map_of (dict_set d k v) = (map_of d)(k \<mapsto> v)"
  by (induction d) (auto simp: fun_eq_iff)

lemma map_fst_dict_set:
  "map fst (dict_set d k v) = (if k \<in> set (map fst d) then map fst d else map fst d @ [k])"
  by (induction d) (auto split: if_splits)

lemma keys_dict_set: "fst ` set (dict_set d k v) = insert k (fst ` set d)"
  using arg_cong[OF map_fst_dict_set[of d k v], of set] by (auto split: if_splits)

lemma distinct_dict_set: "distinct (map fst d) \<Longrightarrow> distinct (map fst (dict_set d k v))"
  by (simp add: map_fst_dict_set)

subsection \<open>The digest never fails after the encoding\<close>

lemma le_bytes_bound: "b \<in> set (le_bytes n v) \<Longrightarrow> b < 256"
  by (induction n arbitrary: v) auto

lemma length_le_bytes: "length (le_bytes n v) = n"
  by (induction n arbitrary: v) auto

lemma md4_bound: "b \<in> set (md4 m) \<Longrightarrow> b < 256"
proof -
  obtain A B C D where
    "md4_blocks (0x67452301, 0xEFCDAB89, 0x98BADCFE, 0x10325476)
       (chunks 64 (length (md4_pad m) div 64) (md4_pad m)) = (A, B, C, D)"
    by (metis prod_cases4)
  then show "b \<in> set (md4 m) \<Longrightarrow> b < 256"
    by (auto simp: md4_def dest: le_bytes_bound)
qed

lemma length_md4: "length (md4 m) = 16"
proof -
  obtain A B C D where
    "md4_blocks (0x67452301, 0xEFCDAB89, 0x98BADCFE, 0x10325476)
       (chunks 64 (length (md4_pad m) div 64) (md4_pad m)) = (A, B, C, D)"
    by (metis prod_cases4)
  then show ?thesis
    by (simp add: md4_def length_le_bytes)
qed

lemma length_hexdigest: "length (hexdigest bs) = 2 * length bs"
  by (induction bs) auto

lemma upper_hex_digit_ascii: "n < 16 \<Longrightarrow> upper_char (hex_digit n) < 128"
  by (simp add: hex_digit_def upper_char_def)

lemma upper_hexdigest_ascii:
  "\<forall>b\<in>set bs. b < 256 \<Longrightarrow> c \<in> set (upper (hexdigest bs)) \<Longrightarrow> c < 128"
proof (induction bs)
  case Nil
  then show ?case by (simp add: upper_def)
next
  case (Cons b bs)
  from Cons.prems(1) have "b < 256" by simp
  then have "b div 16 < 16" by arith
  then have hi: "upper_char (hex_digit (b div 16)) < 128" by (rule upper_hex_digit_ascii)
  have lo: "upper_char (hex_digit (b mod 16)) < 128" by (rule upper_hex_digit_ascii) simp
  from Cons.prems(2) have
    "c = upper_char (hex_digit (b div 16)) \<or> c = upper_char (hex_digit (b mod 16)) \<or>
     c \<in> set (upper (hexdigest bs))"
    by (auto simp: upper_def)
  with hi lo Cons.IH Cons.prems(1) show ?case by auto
qed

lemma encode_utf8_ascii: "\<forall>c\<in>set s. c < 128 \<Longrightarrow> encode_utf8 s = Inr s"
  by (induction s) (auto simp: utf8_char_def is_surrogate_def)

lemma ntlm_hash_Inr:
  assumes "encode_utf16le pwd = Inr data"
  shows "ntlm_hash pwd = Inr (upper (hexdigest (md4 data)))"
proof -
  have "\<forall>c\<in>set (upper (hexdigest (md4 data))). c < 128"
    using upper_hexdigest_ascii[of "md4 data"] md4_bound[of _ data] by blast
  then show ?thesis
    using assms by (simp add: ntlm_hash_def encode_utf8_ascii)
qed

lemma utf16le_char_error: "utf16le_char c = Inl e \<Longrightarrow> e = UnicodeEncodeError"
  by (auto simp: utf16le_char_def split: if_splits)

lemma encode_utf16le_error: "encode_utf16le pwd = Inl e \<Longrightarrow> e = UnicodeEncodeError"
  by (induction pwd) (auto split: sum.splits dest: utf16le_char_error)

lemma ntlm_hash_encodable: "encodable pwd \<Longrightarrow> \<exists>h. ntlm_hash pwd = Inr h"
  by (auto simp: encodable_def split: sum.splits dest: ntlm_hash_Inr)

lemma ntlm_hash_not_encodable: "\<not> encodable pwd \<Longrightarrow> ntlm_hash pwd = Inl UnicodeEncodeError"
  by (auto simp: encodable_def ntlm_hash_def split: sum.splits dest: encode_utf16le_error)

lemma encodable_iff: "encodable pwd \<longleftrightarrow> (\<forall>c\<in>set pwd. \<not> is_surrogate c \<and> c < 0x110000)"
  by (induction pwd) (auto simp: encodable_def utf16le_char_def split: sum.splits if_splits)

subsection \<open>The loop over the passwords\<close>

lemma scan_passwords_encodable:
  assumes "\<forall>p\<in>set pwds. encodable p"
  shows "\<exists>c. scan_passwords H fp pwds cracked = (c, None) \<and>
           map_of c = (\<lambda>p. if p \<in> set pwds \<and> ntlm_hash p \<in> Inr ` H then Some (basename fp)
                            else map_of cracked p) \<and>
           fst ` set c = fst ` set cracked \<union> {p \<in> set pwds. ntlm_hash p \<in> Inr ` H} \<and>
           (distinct (map fst cracked) \<longrightarrow> distinct (map fst c))"
  using assms
proof (induction pwds arbitrary: cracked)
  case Nil
  then show ?case by simp
next
  case (Cons pwd pwds)
  from Cons.prems have "encodable pwd" by simp
  then obtain h where h: "ntlm_hash pwd = Inr h" using ntlm_hash_encodable by blast
  let ?c1 = "if h \<in> H then dict_set cracked pwd (basename fp) else cracked"
  from Cons.prems have "\<forall>p\<in>set pwds. encodable p" by simp
  from Cons.IH[OF this, of ?c1] obtain c where
    c: "scan_passwords H fp pwds ?c1 = (c, None)"
       "map_of c = (\<lambda>p. if p \<in> set pwds \<and> ntlm_hash p \<in> Inr ` H then Some (basename fp)
                            else map_of ?c1 p)"
       "fst ` set c = fst ` set ?c1 \<union> {p \<in> set pwds. ntlm_hash p \<in> Inr ` H}"
       "distinct (map fst ?c1) \<longrightarrow> distinct (map fst c)"
    by blast
  have 1: "scan_passwords H fp (pwd # pwds) cracked = (c, None)"
    using h c(1) by simp
  have 2: "map_of c = (\<lambda>p. if p \<in> set (pwd # pwds) \<and> ntlm_hash p \<in> Inr ` H then Some (basename fp)
                            else map_of cracked p)"
    using c(2) h by (auto simp: fun_eq_iff map_of_dict_set)
  have 3: "fst ` set c = fst ` set cracked \<union> {p \<in> set (pwd # pwds). ntlm_hash p \<in> Inr ` H}"
    using c(3) h by (auto simp: keys_dict_set)
  have 4: "distinct (map fst cracked) \<longrightarrow> distinct (map fst c)"
    using c(4) by (auto simp: distinct_dict_set)
  from 1 2 3 4 show ?case by blast
qed


subsection \<open>The loop over the files\<close>

lemma in_table_Inr:
  "open_rb nd = Inr content \<Longrightarrow>
     in_table p nd \<longleftrightarrow> ntlm_hash p \<in> Inr ` precomputed_hashes content"
  by (auto simp: in_table_def split: sum.splits)

lemma opens_Inr: "opens nd \<longleftrightarrow> (\<exists>content. open_rb nd = Inr content)"
  by (auto simp: opens_def split: sum.splits)

lemma scan_files_append:
  "scan_files (xs @ ys) pwds st =
     (case scan_files xs pwds st of
        (st', None) \<Rightarrow> scan_files ys pwds st'
      | (st', Some e) \<Rightarrow> (st', Some e))"
proof (induction xs arbitrary: st)
  case Nil
  then show ?case by simp
next
  case (Cons x xs)
  obtain fp nd where x: "x = (fp, nd)" by (cases x)
  show ?case
    by (simp add: x Cons.IH split: sum.splits prod.splits option.splits)
qed

lemma scan_files_error_free:
  assumes enc: "\<forall>p\<in>set pwds. encodable p"
    and op: "\<forall>t\<in>set fs. opens (snd t)"
  shows "\<exists>st'. scan_files fs pwds st = (st', None) \<and>
           opened st' = opened st @ map fst fs \<and> logged st' = logged st \<and>
           fst ` set (cracked_passwords st') =
             fst ` set (cracked_passwords st) \<union> {p \<in> set pwds. \<exists>t\<in>set fs. in_table p (snd t)} \<and>
           map_of (cracked_passwords st') =
             (\<lambda>p. if p \<in> set pwds \<and> (\<exists>t\<in>set fs. in_table p (snd t))
                  then Some (basename (fst (last (filter (\<lambda>t. in_table p (snd t)) fs))))
                  else map_of (cracked_passwords st) p) \<and>
           (distinct (map fst (cracked_passwords st)) \<longrightarrow>
              distinct (map fst (cracked_passwords st')))"
  using op
proof (induction fs arbitrary: st)
  case Nil
  then show ?case by simp
next
  case (Cons x fs)
  obtain fp nd where x: "x = (fp, nd)" by (cases x)
  from Cons.prems x obtain content where content: "open_rb nd = Inr content"
    by (auto simp: opens_Inr)
  from scan_passwords_encodable[OF enc, of "precomputed_hashes content" fp "cracked_passwords st"]
  obtain c where
    c: "scan_passwords (precomputed_hashes content) fp pwds (cracked_passwords st) = (c, None)"
       "map_of c = (\<lambda>p. if p \<in> set pwds \<and> ntlm_hash p \<in> Inr ` precomputed_hashes content
                          then Some (basename fp) else map_of (cracked_passwords st) p)"
       "fst ` set c = fst ` set (cracked_passwords st) \<union>
                        {p \<in> set pwds. ntlm_hash p \<in> Inr ` precomputed_hashes content}"
       "distinct (map fst (cracked_passwords st)) \<longrightarrow> distinct (map fst c)"
    by blast
  let ?st1 = "st\<lparr>cracked_passwords := c, opened := opened st @ [fp]\<rparr>"
  from Cons.prems have "\<forall>t\<in>set fs. opens (snd t)" by simp
  from Cons.IH[OF this, of ?st1] obtain st' where
    st': "scan_files fs pwds ?st1 = (st', None)"
         "opened st' = opened ?st1 @ map fst fs" "logged st' = logged ?st1"
         "fst ` set (cracked_passwords st') =
             fst ` set (cracked_passwords ?st1) \<union> {p \<in> set pwds. \<exists>t\<in>set fs. in_table p (snd t)}"
         "map_of (cracked_passwords st') =
             (\<lambda>p. if p \<in> set pwds \<and> (\<exists>t\<in>set fs. in_table p (snd t))
                  then Some (basename (fst (last (filter (\<lambda>t. in_table p (snd t)) fs))))
                  else map_of (cracked_passwords ?st1) p)"
         "distinct (map fst (cracked_passwords ?st1)) \<longrightarrow> distinct (map fst (cracked_passwords st'))"
    by blast
  have it: "\<And>p. in_table p nd \<longleftrightarrow> ntlm_hash p \<in> Inr ` precomputed_hashes content"
    using in_table_Inr[OF content] by simp
  have 1: "scan_files (x # fs) pwds st = (st', None)"
    using x content c(1) st'(1) by simp
  have 2: "opened st' = opened st @ map fst (x # fs)" "logged st' = logged st"
    using st'(2,3) x by simp_all
  have 3: "fst ` set (cracked_passwords st') =
             fst ` set (cracked_passwords st) \<union> {p \<in> set pwds. \<exists>t\<in>set (x # fs). in_table p (snd t)}"
    using st'(4) c(3) x it by auto
  have 4: "map_of (cracked_passwords st') =
             (\<lambda>p. if p \<in> set pwds \<and> (\<exists>t\<in>set (x # fs). in_table p (snd t))
                  then Some (basename (fst (last (filter (\<lambda>t. in_table p (snd t)) (x # fs)))))
                  else map_of (cracked_passwords st) p)"
  proof
    fix p
    show "map_of (cracked_passwords st') p =
             (if p \<in> set pwds \<and> (\<exists>t\<in>set (x # fs). in_table p (snd t))
                  then Some (basename (fst (last (filter (\<lambda>t. in_table p (snd t)) (x # fs)))))
                  else map_of (cracked_passwords st) p)"
    proof (cases "p \<in> set pwds \<and> (\<exists>t\<in>set fs. in_table p (snd t))")
      case True
      then have "filter (\<lambda>t. in_table p (snd t)) fs \<noteq> []"
        by (auto simp: filter_empty_conv)
      then show ?thesis using True st'(5) by simp
    next
      case False
      then have "filter (\<lambda>t. in_table p (snd t)) fs = [] \<or> p \<notin> set pwds"
        by (auto simp: filter_empty_conv)
      then show ?thesis using False st'(5) c(2) x it by auto
    qed
  qed
  have 5: "distinct (map fst (cracked_passwords st)) \<longrightarrow> distinct (map fst (cracked_passwords st'))"
    using st'(6) c(4) by simp
  from 1 2 3 4 5 show ?case by blast
qed

lemma scan_files_takeWhile:
  assumes enc: "\<forall>p\<in>set pwds. encodable p"
  shows "fst (scan_files fs pwds st) = fst (scan_files (takeWhile (\<lambda>(fp, nd). opens nd) fs) pwds st)"
proof (induction fs arbitrary: st)
  case Nil
  then show ?case by simp
next
  case (Cons x fs)
  obtain fp nd where x: "x = (fp, nd)" by (cases x)
  show ?case
  proof (cases "open_rb nd")
    case (Inl e)
    then show ?thesis by (simp add: x opens_def)
  next
    case (Inr content)
    from scan_passwords_encodable[OF enc, of "precomputed_hashes content" fp "cracked_passwords st"]
    obtain c where
      "scan_passwords (precomputed_hashes content) fp pwds (cracked_passwords st) = (c, None)"
      by blast
    then show ?thesis using Inr by (simp add: x opens_def Cons.IH)
  qed
qed

section \<open>The scan, with and without exceptions\<close>

lemma subset_insert_step:
  "X \<subseteq> insert a K \<union> S \<Longrightarrow> a \<in> S' \<Longrightarrow> S \<subseteq> S' \<Longrightarrow> X \<subseteq> K \<union> S'"
  by blast

lemma subset_step: "X \<subseteq> K \<union> S \<Longrightarrow> S \<subseteq> S' \<Longrightarrow> X \<subseteq> K \<union> S'"
  by blast

lemma scan_passwords_keys:
  "fst ` set (fst (scan_passwords H fp pwds c)) \<subseteq>
     fst ` set c \<union> {p \<in> set pwds. ntlm_hash p \<in> Inr ` H}"
proof (induction pwds arbitrary: c)
  case Nil
  then show ?case by simp
next
  case (Cons pwd pwds)
  have m: "{p \<in> set pwds. ntlm_hash p \<in> Inr ` H} \<subseteq> {p \<in> set (pwd # pwds). ntlm_hash p \<in> Inr ` H}"
    by auto
  show ?case
  proof (cases "ntlm_hash pwd")
    case (Inl e)
    then show ?thesis by simp
  next
    case (Inr h)
    show ?thesis
    proof (cases "h \<in> H")
      case True
      have eq: "scan_passwords H fp (pwd # pwds) c =
                  scan_passwords H fp pwds (dict_set c pwd (basename fp))"
        using Inr True by simp
      have "fst ` set (fst (scan_passwords H fp pwds (dict_set c pwd (basename fp)))) \<subseteq>
              insert pwd (fst ` set c) \<union> {p \<in> set pwds. ntlm_hash p \<in> Inr ` H}"
        using Cons.IH[of "dict_set c pwd (basename fp)"] by (simp only: keys_dict_set)
      moreover have "pwd \<in> {p \<in> set (pwd # pwds). ntlm_hash p \<in> Inr ` H}"
        using Inr True by simp
      ultimately show ?thesis unfolding eq using m by (rule subset_insert_step)
    next
      case False
      have eq: "scan_passwords H fp (pwd # pwds) c = scan_passwords H fp pwds c"
        using Inr False by simp
      show ?thesis unfolding eq using Cons.IH[of c] m by (rule subset_step)
    qed
  qed
qed

lemma scan_files_keys:
  "fst ` set (cracked_passwords (fst (scan_files fs pwds st))) \<subseteq>
     fst ` set (cracked_passwords st) \<union>
       {p \<in> set pwds. \<exists>t\<in>set (takeWhile (\<lambda>(fp, nd). opens nd) fs). in_table p (snd t)}"
proof (induction fs arbitrary: st)
  case Nil
  then show ?case by simp
next
  case (Cons x fs)
  obtain fp nd where x: "x = (fp, nd)" by (cases x)
  show ?case
  proof (cases "open_rb nd")
    case (Inl e)
    then show ?thesis by (simp add: x)
  next
    case (Inr content)
    then have o: "opens nd" by (simp add: opens_def)
    obtain c e where c: "scan_passwords (precomputed_hashes content) fp pwds (cracked_passwords st) = (c, e)"
      by (cases "scan_passwords (precomputed_hashes content) fp pwds (cracked_passwords st)")
    have k: "fst ` set c \<subseteq> fst ` set (cracked_passwords st) \<union> {p \<in> set pwds. in_table p nd}"
      using scan_passwords_keys[of "precomputed_hashes content" fp pwds "cracked_passwords st"] c
      by (simp add: in_table_Inr[OF Inr])
    let ?st1 = "st\<lparr>cracked_passwords := c, opened := opened st @ [fp]\<rparr>"
    show ?thesis
    proof (cases e)
      case None
      have "fst ` set (cracked_passwords (fst (scan_files fs pwds ?st1))) \<subseteq>
         fst ` set (cracked_passwords ?st1) \<union>
           {p \<in> set pwds. \<exists>t\<in>set (takeWhile (\<lambda>(fp, nd). opens nd) fs). in_table p (snd t)}"
        by (rule Cons.IH)
      then show ?thesis using k c None Inr o by (auto simp: x)
    next
      case (Some ex)
      then show ?thesis using k c Inr o by (auto simp: x)
    qed
  qed
qed

lemma scan_passwords_stop:
  assumes "\<forall>p\<in>set good. encodable p" and "\<not> encodable bad"
  shows "scan_passwords H fp (good @ bad # rest) c =
           (fst (scan_passwords H fp good c), Some UnicodeEncodeError)"
  using assms(1)
proof (induction good arbitrary: c)
  case Nil
  then show ?case using ntlm_hash_not_encodable[OF assms(2)] by simp
next
  case (Cons p good)
  then obtain h where "ntlm_hash p = Inr h" using ntlm_hash_encodable[of p] by auto
  then show ?case using Cons by simp
qed

lemma check_rainbow_table_fields:
  "cracked_passwords (check_rainbow_table pwds d fs) = cracked_passwords (fst (try_block pwds d fs))"
  "opened (check_rainbow_table pwds d fs) = opened (fst (try_block pwds d fs))"
  by (auto simp: check_rainbow_table_def split: prod.splits option.splits)

lemma processed_opens: "t \<in> set (processed d es) \<Longrightarrow> opens (snd t)"
  by (auto simp: processed_def dest: set_takeWhileD)

lemma processed_error_free:
  assumes enc: "\<forall>p\<in>set pwds. encodable p"
  shows "\<exists>st'. scan_files (processed d es) pwds st = (st', None) \<and>
           opened st' = opened st @ map fst (processed d es) \<and> logged st' = logged st \<and>
           fst ` set (cracked_passwords st') =
             fst ` set (cracked_passwords st) \<union>
               {p \<in> set pwds. \<exists>t\<in>set (processed d es). in_table p (snd t)} \<and>
           map_of (cracked_passwords st') =
             (\<lambda>p. if p \<in> set pwds \<and> (\<exists>t\<in>set (processed d es). in_table p (snd t))
                  then Some (basename (fst (last (filter (\<lambda>t. in_table p (snd t)) (processed d es)))))
                  else map_of (cracked_passwords st) p) \<and>
           (distinct (map fst (cracked_passwords st)) \<longrightarrow>
              distinct (map fst (cracked_passwords st')))"
  by (rule scan_files_error_free[OF enc]) (simp add: processed_opens)

lemma listing_processed:
  assumes enc: "\<forall>p\<in>set pwds. encodable p"
  shows "cracked_passwords (check_rainbow_table pwds d (Listing es)) =
           cracked_passwords (fst (scan_files (processed d es) pwds
              \<lparr>cracked_passwords = [], opened = [], logged = []\<rparr>))"
  using scan_files_takeWhile[OF enc, of "rainbow_files d es"]
  by (simp add: check_rainbow_table_fields try_block_def listdir_def processed_def)

section \<open>Runs of \<open>check_rainbow_table\<close>\<close>

lemmas digests = ntlm_password[unfolded str_def, simplified] ntlm_abc123[unfolded str_def, simplified]
  ntlm_Tr0ub4dor[unfolded str_def, simplified] ntlm_lone_surrogate[unfolded lone_surrogate_def]

lemmas run_eval = check_rainbow_table_def try_block_def listdir_def rainbow_files_def isfile_def
  open_rb_def path_join_def basename_def precomputed_hashes_def bytes_strip_def is_space_byte_def
  table_password_def table_abc123_def table_both_def lone_surrogate_def str_def

lemma encodable_examples:
  "encodable (str ''password'')" "encodable (str ''abc123'')" "encodable (str ''Tr0ub4dor&3'')"
  "\<not> encodable lone_surrogate"
  by (simp_all add: encodable_iff str_def is_surrogate_def lone_surrogate_def)

lemma rainbow_files_append:
  "rainbow_files d (xs @ ys) = rainbow_files d xs @ rainbow_files d ys"
  by (simp add: rainbow_files_def)

lemma rainbow_files_Cons_file:
  "rainbow_files d ((n, File r) # es) = (path_join d n, File r) # rainbow_files d es"
  by (simp add: rainbow_files_def isfile_def)

lemma rainbow_files_nonfiles: "\<forall>t\<in>set es. \<not> isfile (snd t) \<Longrightarrow> rainbow_files d es = []"
  by (auto simp: rainbow_files_def filter_empty_conv)

lemma rainbow_files_opens:
  "\<forall>t\<in>set es. isfile (snd t) \<longrightarrow> opens (snd t) \<Longrightarrow> \<forall>t\<in>set (rainbow_files d es). opens (snd t)"
  by (auto simp: rainbow_files_def)

lemma listing_keys:
  "fst ` set (cracked_passwords (check_rainbow_table pwds d (Listing es))) \<subseteq>
     {p \<in> set pwds. \<exists>t\<in>set (processed d es). in_table p (snd t)}"
  using scan_files_keys[of "rainbow_files d es" pwds "\<lparr>cracked_passwords = [], opened = [], logged = []\<rparr>"]
  by (simp add: check_rainbow_table_fields try_block_def listdir_def processed_def)

lemma list_error_run:
  "check_rainbow_table pwds d (ListError e) =
     \<lparr>cracked_passwords = [], opened = [],
      logged = [if e = FileNotFoundError then RainbowDirectoryNotFound d
                else ErrorProcessingRainbowTables e]\<rparr>"
  by (simp add: check_rainbow_table_def try_block_def listdir_def)

lemma listing_domain:
  assumes enc: "\<forall>q\<in>set pwds. encodable q"
  shows "fst ` set (cracked_passwords (check_rainbow_table pwds d (Listing es))) =
           {p \<in> set pwds. \<exists>t\<in>set (processed d es). in_table p (snd t)}"
proof -
  from processed_error_free[OF enc, of d es "\<lparr>cracked_passwords = [], opened = [], logged = []\<rparr>"]
  obtain st' where
    st: "scan_files (processed d es) pwds \<lparr>cracked_passwords = [], opened = [], logged = []\<rparr> = (st', None)"
    and k: "fst ` set (cracked_passwords st') =
             fst ` set (cracked_passwords \<lparr>cracked_passwords = [], opened = [], logged = []\<rparr>) \<union>
               {p \<in> set pwds. \<exists>t\<in>set (processed d es). in_table p (snd t)}"
    by blast
  show ?thesis
    using k by (simp add: listing_processed[OF enc] st)
qed

lemma processed_all_open:
  "\<forall>t\<in>set es. isfile (snd t) \<longrightarrow> opens (snd t) \<Longrightarrow> processed d es = rainbow_files d es"
  using rainbow_files_opens[of es d] by (auto simp: processed_def takeWhile_eq_all_conv)

lemma set_rainbow_files:
  "set (rainbow_files d es) = (\<lambda>(n, nd). (path_join d n, nd)) ` {t \<in> set es. isfile (snd t)}"
  by (auto simp: rainbow_files_def)

section \<open>Claim C1: which table a credential is attributed to\<close>

text \<open>
  C1, as the code has it. Line 52 stores the table unconditionally, so each match replaces
  the one before it: when every credential is encodable, a credential whose digest is in
  one or more processed tables is attributed to the last of them in processing order.
\<close>

theorem last_table_wins:
  assumes enc: "\<forall>q\<in>set pwds. encodable q"
    and p: "p \<in> set pwds"
    and m: "filter (\<lambda>t. in_table p (snd t)) (processed d es) \<noteq> []"
  shows "map_of (cracked_passwords (check_rainbow_table pwds d (Listing es))) p =
           Some (basename (fst (last (filter (\<lambda>t. in_table p (snd t)) (processed d es)))))"
proof -
  from processed_error_free[OF enc, of d es "\<lparr>cracked_passwords = [], opened = [], logged = []\<rparr>"]
  obtain st' where
    st: "scan_files (processed d es) pwds \<lparr>cracked_passwords = [], opened = [], logged = []\<rparr> = (st', None)"
    and mp: "map_of (cracked_passwords st') =
             (\<lambda>p. if p \<in> set pwds \<and> (\<exists>t\<in>set (processed d es). in_table p (snd t))
                  then Some (basename (fst (last (filter (\<lambda>t. in_table p (snd t)) (processed d es)))))
                  else map_of (cracked_passwords \<lparr>cracked_passwords = [], opened = [], logged = []\<rparr>) p)"
    by blast
  from m have "\<exists>t\<in>set (processed d es). in_table p (snd t)"
    by (auto simp: filter_empty_conv)
  then show ?thesis
    using p by (simp add: listing_processed[OF enc] st mp)
qed

text \<open>
  C1 as stated fails: with "a.hash" and "b.hash" listed in that order and both holding the
  digest of "abc123", the result maps "abc123" to "b.hash".
\<close>

theorem first_table_wins_counterexample:
  "cracked_passwords (check_rainbow_table [str ''abc123''] ''rainbow''
      (Listing [(''a.hash'', table_abc123), (''b.hash'', table_abc123)]))
     = [(str ''abc123'', ''b.hash'')]"
  by (simp add: run_eval digests)

text \<open>The same run, through the theorem.\<close>

theorem last_table_wins_witness:
  "encodable (str ''abc123'') \<and>
   filter (\<lambda>t. in_table (str ''abc123'') (snd t))
      (processed ''rainbow'' [(''a.hash'', table_abc123), (''b.hash'', table_abc123)])
     = [(''rainbow/a.hash'', table_abc123), (''rainbow/b.hash'', table_abc123)] \<and>
   map_of (cracked_passwords (check_rainbow_table [str ''abc123''] ''rainbow''
      (Listing [(''a.hash'', table_abc123), (''b.hash'', table_abc123)]))) (str ''abc123'')
     = Some ''b.hash''"
proof -
  have f: "filter (\<lambda>t. in_table (str ''abc123'') (snd t))
      (processed ''rainbow'' [(''a.hash'', table_abc123), (''b.hash'', table_abc123)])
     = [(''rainbow/a.hash'', table_abc123), (''rainbow/b.hash'', table_abc123)]"
    by (simp add: processed_def opens_def in_table_def run_eval digests)
  show ?thesis
    using last_table_wins[of "[str ''abc123'']" "str ''abc123''" "''rainbow''"
        "[(''a.hash'', table_abc123), (''b.hash'', table_abc123)]"]
    by (simp add: f encodable_examples basename_def)
qed

section \<open>Claim C2: the domain of the result\<close>




section \<open>Claim C3: the order of the tables\<close>

text \<open>
  C3, as the code has it. The model is a function of the credentials and of the listing,
  so equal inputs give equal results. The order of the tables is the order of
  \<open>os.listdir\<close>, nothing sorts it: in a run without errors the files are opened in
  listing order, and listing the same entries in another order leaves only the keys of
  the result unchanged.
\<close>

theorem listing_order_decides:
  assumes enc: "\<forall>q\<in>set pwds. encodable q"
    and op: "\<forall>t\<in>set es. isfile (snd t) \<longrightarrow> opens (snd t)"
    and perm: "mset es' = mset es"
  shows "opened (check_rainbow_table pwds d (Listing es)) = map fst (rainbow_files d es) \<and>
         fst ` set (cracked_passwords (check_rainbow_table pwds d (Listing es'))) =
           fst ` set (cracked_passwords (check_rainbow_table pwds d (Listing es)))"
proof
  from scan_files_error_free[OF enc rainbow_files_opens[OF op],
        of d "\<lparr>cracked_passwords = [], opened = [], logged = []\<rparr>"]
  obtain st' where
    "scan_files (rainbow_files d es) pwds \<lparr>cracked_passwords = [], opened = [], logged = []\<rparr> = (st', None)"
    "opened st' = opened \<lparr>cracked_passwords = [], opened = [], logged = []\<rparr> @ map fst (rainbow_files d es)"
    by blast
  then show "opened (check_rainbow_table pwds d (Listing es)) = map fst (rainbow_files d es)"
    by (simp add: check_rainbow_table_fields try_block_def listdir_def)
next
  from perm have s: "set es' = set es" by (rule mset_eq_setD)
  with op have op': "\<forall>t\<in>set es'. isfile (snd t) \<longrightarrow> opens (snd t)" by simp
  have "set (rainbow_files d es') = set (rainbow_files d es)"
    by (simp add: set_rainbow_files s)
  then show "fst ` set (cracked_passwords (check_rainbow_table pwds d (Listing es'))) =
           fst ` set (cracked_passwords (check_rainbow_table pwds d (Listing es)))"
    by (simp add: listing_domain[OF enc] processed_all_open[OF op] processed_all_open[OF op'])
qed

text \<open>
  C3 as stated fails: the same two files, listed in the two possible orders, give two
  different results.
\<close>

theorem listing_order_counterexample:
  "cracked_passwords (check_rainbow_table [str ''abc123''] ''rainbow''
      (Listing [(''a.hash'', table_abc123), (''b.hash'', table_both)]))
     = [(str ''abc123'', ''b.hash'')] \<and>
   cracked_passwords (check_rainbow_table [str ''abc123''] ''rainbow''
      (Listing [(''b.hash'', table_both), (''a.hash'', table_abc123)]))
     = [(str ''abc123'', ''a.hash'')]"
  by (simp add: run_eval digests)

text \<open>The same two listings, through the theorem.\<close>

theorem listing_order_decides_witness:
  "encodable (str ''abc123'') \<and> opens table_abc123 \<and> opens table_both \<and>
   mset [(''b.hash'', table_both), (''a.hash'', table_abc123)] =
     mset [(''a.hash'', table_abc123), (''b.hash'', table_both)] \<and>
   opened (check_rainbow_table [str ''abc123''] ''rainbow''
      (Listing [(''a.hash'', table_abc123), (''b.hash'', table_both)]))
     = [''rainbow/a.hash'', ''rainbow/b.hash''] \<and>
   fst ` set (cracked_passwords (check_rainbow_table [str ''abc123''] ''rainbow''
      (Listing [(''b.hash'', table_both), (''a.hash'', table_abc123)]))) =
   fst ` set (cracked_passwords (check_rainbow_table [str ''abc123''] ''rainbow''
      (Listing [(''a.hash'', table_abc123), (''b.hash'', table_both)])))"
proof -
  have o: "opens table_abc123" "opens table_both"
    by (simp_all add: opens_def open_rb_def table_abc123_def table_both_def)
  have m: "mset [(''b.hash'', table_both), (''a.hash'', table_abc123)] =
     mset [(''a.hash'', table_abc123), (''b.hash'', table_both)]"
    by (simp add: add.commute)
  have r: "map fst (rainbow_files ''rainbow'' [(''a.hash'', table_abc123), (''b.hash'', table_both)])
            = [''rainbow/a.hash'', ''rainbow/b.hash'']"
    by (simp add: rainbow_files_def isfile_def path_join_def table_abc123_def table_both_def)
  show ?thesis
    using listing_order_decides[of "[str ''abc123'']"
        "[(''a.hash'', table_abc123), (''b.hash'', table_both)]"
        "[(''b.hash'', table_both), (''a.hash'', table_abc123)]" "''rainbow''"]
    by (simp add: o m r encodable_examples)
qed

section \<open>Claim C4: a table that cannot be opened\<close>

text \<open>
  C4, as the code has it. The \<open>try\<close> encloses the loop over the files, so the first
  regular file that fails to open ends the scan: the files after it are not read, the
  function returns what the files before it gave, and one error is logged (as a missing
  directory when the exception is \<open>FileNotFoundError\<close>). The function returns the
  dictionary alone; nothing counts skipped sources.
\<close>

theorem unopenable_table_stops_scan:
  assumes enc: "\<forall>q\<in>set pwds. encodable q"
    and pre: "\<forall>t\<in>set pre. isfile (snd t) \<longrightarrow> opens (snd t)"
  shows "check_rainbow_table pwds d (Listing (pre @ (n, File (Inl e)) # post)) =
           (check_rainbow_table pwds d (Listing pre))
             \<lparr>logged := [if e = FileNotFoundError then RainbowDirectoryNotFound d
                         else ErrorProcessingRainbowTables e]\<rparr> \<and>
         logged (check_rainbow_table pwds d (Listing pre)) = []"
proof -
  let ?init = "\<lparr>cracked_passwords = [], opened = [], logged = []\<rparr>"
  from scan_files_error_free[OF enc rainbow_files_opens[OF pre], of d ?init]
  obtain st' where
    st: "scan_files (rainbow_files d pre) pwds ?init = (st', None)" and lg: "logged st' = logged ?init"
    by blast
  have 1: "check_rainbow_table pwds d (Listing pre) = st'"
    by (simp add: check_rainbow_table_def try_block_def listdir_def st)
  have "scan_files (rainbow_files d (pre @ (n, File (Inl e)) # post)) pwds ?init = (st', Some e)"
    by (simp add: rainbow_files_append rainbow_files_Cons_file scan_files_append st open_rb_def)
  then have 2: "check_rainbow_table pwds d (Listing (pre @ (n, File (Inl e)) # post)) =
      st'\<lparr>logged := [if e = FileNotFoundError then RainbowDirectoryNotFound d
                         else ErrorProcessingRainbowTables e]\<rparr>"
    by (simp add: check_rainbow_table_def try_block_def listdir_def)
  from 1 2 lg show ?thesis by simp
qed

text \<open>
  C4 as stated fails: with "missing.hash" listed before "t1.hash", the table "t1.hash" is
  never read and the result is empty, while the remaining source alone gives
  \<open>{"password": "t1.hash"}\<close>.
\<close>

theorem skip_unopenable_counterexample:
  "check_rainbow_table [str ''password''] ''rainbow''
      (Listing [(''missing.hash'', File (Inl FileNotFoundError)), (''t1.hash'', table_password)])
     = \<lparr>cracked_passwords = [], opened = [], logged = [RainbowDirectoryNotFound ''rainbow'']\<rparr> \<and>
   check_rainbow_table [str ''password''] ''rainbow'' (Listing [(''t1.hash'', table_password)])
     = \<lparr>cracked_passwords = [(str ''password'', ''t1.hash'')], opened = [''rainbow/t1.hash''],
        logged = []\<rparr>"
  by (simp add: run_eval digests)

text \<open>A run that stops at the second of three entries.\<close>

theorem unopenable_table_stops_scan_witness:
  "encodable (str ''password'') \<and> opens table_abc123 \<and>
   check_rainbow_table [str ''password''] ''rainbow''
      (Listing [(''a.hash'', table_abc123), (''missing.hash'', File (Inl PermissionError)),
                (''t1.hash'', table_password)])
     = \<lparr>cracked_passwords = [], opened = [''rainbow/a.hash''],
        logged = [ErrorProcessingRainbowTables PermissionError]\<rparr>"
proof -
  have o: "opens table_abc123"
    by (simp add: opens_def open_rb_def table_abc123_def)
  have r: "check_rainbow_table [str ''password''] ''rainbow'' (Listing [(''a.hash'', table_abc123)])
     = \<lparr>cracked_passwords = [], opened = [''rainbow/a.hash''], logged = []\<rparr>"
    by (simp add: run_eval digests)
  show ?thesis
    using unopenable_table_stops_scan[of "[str ''password'']" "[(''a.hash'', table_abc123)]"
        "''rainbow''" "''missing.hash''" PermissionError "[(''t1.hash'', table_password)]"]
    by (simp add: o r encodable_examples)
qed

section \<open>Claim C5: a credential that cannot be encoded\<close>

text \<open>
  C5, as the code has it. The digest is computed inside the loops and the only handler
  is outside them: a credential that \<open>encode('utf-16le')\<close> rejects ends the whole scan
  in the first table file. The function returns the matches of the credentials before it
  against that file, and logs one error; the credentials after it and the other tables
  are not looked at.
\<close>

theorem unencodable_credential_stops_scan:
  assumes good: "\<forall>q\<in>set good. encodable q"
    and bad: "\<not> encodable bad"
    and nonfiles: "\<forall>t\<in>set nonfiles. \<not> isfile (snd t)"
  shows "check_rainbow_table (good @ bad # rest) d
           (Listing (nonfiles @ (n, File (Inr content)) # others)) =
         (check_rainbow_table good d (Listing [(n, File (Inr content))]))
           \<lparr>logged := [ErrorProcessingRainbowTables UnicodeEncodeError]\<rparr>"
proof -
  let ?init = "\<lparr>cracked_passwords = [], opened = [], logged = []\<rparr>"
  let ?H = "precomputed_hashes content"
  let ?fp = "path_join d n"
  from scan_passwords_encodable[OF good, of ?H ?fp "[]"]
  obtain c where c: "scan_passwords ?H ?fp good [] = (c, None)" by blast
  have s: "scan_passwords ?H ?fp (good @ bad # rest) [] = (c, Some UnicodeEncodeError)"
    using scan_passwords_stop[OF good bad, of ?H ?fp rest "[]"] c by simp
  have f: "rainbow_files d (nonfiles @ (n, File (Inr content)) # others) =
             (?fp, File (Inr content)) # rainbow_files d others"
    by (simp add: rainbow_files_append rainbow_files_Cons_file rainbow_files_nonfiles[OF nonfiles])
  have 1: "check_rainbow_table (good @ bad # rest) d
             (Listing (nonfiles @ (n, File (Inr content)) # others)) =
           \<lparr>cracked_passwords = c, opened = [?fp],
            logged = [ErrorProcessingRainbowTables UnicodeEncodeError]\<rparr>"
    by (simp add: check_rainbow_table_def try_block_def listdir_def f open_rb_def s)
  have 2: "check_rainbow_table good d (Listing [(n, File (Inr content))]) =
           \<lparr>cracked_passwords = c, opened = [?fp], logged = []\<rparr>"
    by (simp add: check_rainbow_table_def try_block_def listdir_def rainbow_files_def
          isfile_def open_rb_def c)
  from 1 2 show ?thesis by simp
qed

text \<open>
  C5 as stated fails: with a lone surrogate before "password", the credential "password"
  is not classified, though its digest is in the table.
\<close>

theorem skip_unencodable_counterexample:
  "check_rainbow_table [lone_surrogate, str ''password''] ''rainbow''
      (Listing [(''t1.hash'', table_password)])
     = \<lparr>cracked_passwords = [], opened = [''rainbow/t1.hash''],
        logged = [ErrorProcessingRainbowTables UnicodeEncodeError]\<rparr> \<and>
   check_rainbow_table [str ''password''] ''rainbow'' (Listing [(''t1.hash'', table_password)])
     = \<lparr>cracked_passwords = [(str ''password'', ''t1.hash'')], opened = [''rainbow/t1.hash''],
        logged = []\<rparr>"
  by (simp add: run_eval digests)

text \<open>A run that stops at the second of three credentials, in the first of two tables.\<close>

theorem unencodable_credential_stops_scan_witness:
  "encodable (str ''password'') \<and> \<not> encodable lone_surrogate \<and> \<not> isfile NotFile \<and>
   check_rainbow_table ([str ''password''] @ lone_surrogate # [str ''abc123'']) ''rainbow''
      (Listing ([(''sub'', NotFile)] @ (''t1.hash'', table_both) # [(''t2.hash'', table_abc123)]))
     = \<lparr>cracked_passwords = [(str ''password'', ''t1.hash'')], opened = [''rainbow/t1.hash''],
        logged = [ErrorProcessingRainbowTables UnicodeEncodeError]\<rparr>"
proof -
  obtain content where t: "File (Inr content) = table_both"
    by (simp add: table_both_def)
  have r: "check_rainbow_table [str ''password''] ''rainbow'' (Listing [(''t1.hash'', table_both)])
     = \<lparr>cracked_passwords = [(str ''password'', ''t1.hash'')], opened = [''rainbow/t1.hash''],
        logged = []\<rparr>"
    by (simp add: run_eval digests)
  show ?thesis
    using unencodable_credential_stops_scan[of "[str ''password'']" lone_surrogate
        "[(''sub'', NotFile)]" "[str ''abc123'']" "''rainbow''" "''t1.hash''" content
        "[(''t2.hash'', table_abc123)]"]
    unfolding t by (simp add: r encodable_examples isfile_def)
qed

section \<open>Claim C6: the digest transform\<close>

lemma upper_hex_digit: "n < 16 \<Longrightarrow> upper_char (hex_digit n) = uppercase_hex_digit n"
  by (simp add: upper_char_def hex_digit_def uppercase_hex_digit_def)

lemma upper_hexdigest: "\<forall>b\<in>set bs. b < 256 \<Longrightarrow> upper (hexdigest bs) = uppercase_hex bs"
proof (induction bs)
  case Nil
  then show ?case by (simp add: upper_def)
next
  case (Cons b bs)
  then have "b < 256" by simp
  then have hi: "b div 16 < 16" by arith
  have lo: "b mod 16 < 16" by simp
  from Cons have "upper (hexdigest bs) = uppercase_hex bs" by simp
  then show ?case
    using upper_hex_digit[OF hi] upper_hex_digit[OF lo] by (simp add: upper_def)
qed

lemma length_uppercase_hex: "length (uppercase_hex bs) = 2 * length bs"
  by (induction bs) auto

text \<open>
  C6. The digest of line 50 is a function of the credential alone: the expression builds
  a fresh hash object and keeps nothing between calls. For every credential that
  \<open>encode('utf-16le')\<close> accepts, it is the MD4 digest of the encoded bytes written as an
  uppercase hexadecimal string, of 32 characters.
\<close>

theorem digest_transform:
  assumes "encode_utf16le pwd = Inr data"
  shows "ntlm_hash pwd = Inr (uppercase_hex (md4 data)) \<and>
         length (uppercase_hex (md4 data)) = 32"
proof -
  have "\<forall>b\<in>set (md4 data). b < 256" using md4_bound by blast
  then have "upper (hexdigest (md4 data)) = uppercase_hex (md4 data)"
    by (rule upper_hexdigest)
  then show ?thesis
    using ntlm_hash_Inr[OF assms] by (simp add: length_uppercase_hex length_md4)
qed

text \<open>The credential "password" and its well-known digest.\<close>

theorem digest_transform_witness:
  "encode_utf16le (str ''password'') =
     Inr [112, 0, 97, 0, 115, 0, 115, 0, 119, 0, 111, 0, 114, 0, 100, 0] \<and>
   uppercase_hex (md4 [112, 0, 97, 0, 115, 0, 115, 0, 119, 0, 111, 0, 114, 0, 100, 0]) =
     str ''8846F7EAEE8FB117AD06BDD830B7586C''"
proof -
  have e: "encode_utf16le (str ''password'') =
     Inr [112, 0, 97, 0, 115, 0, 115, 0, 119, 0, 111, 0, 114, 0, 100, 0]"
    by (simp add: str_def utf16le_char_def is_surrogate_def le16_def)
  from digest_transform[OF e] ntlm_password show ?thesis
    using e by simp
qed

section \<open>Claim C7: an empty list of credentials\<close>

lemma dropWhile_all: "(\<forall>x\<in>set (dropWhile P xs). P x) \<longleftrightarrow> (\<forall>x\<in>set xs. P x)"
proof
  assume a: "\<forall>x\<in>set (dropWhile P xs). P x"
  have "dropWhile P xs = []"
  proof (rule ccontr)
    assume ne: "dropWhile P xs \<noteq> []"
    then have "\<not> P (hd (dropWhile P xs))" by (rule hd_dropWhile)
    moreover have "hd (dropWhile P xs) \<in> set (dropWhile P xs)" using ne by simp
    ultimately show False using a by blast
  qed
  then show "\<forall>x\<in>set xs. P x" by (simp add: dropWhile_eq_Nil_conv)
next
  assume "\<forall>x\<in>set xs. P x"
  then show "\<forall>x\<in>set (dropWhile P xs). P x" by (auto dest: set_dropWhileD)
qed

lemma strip_empty_iff: "strip s = [] \<longleftrightarrow> (\<forall>c\<in>set s. is_space c)"
  by (simp add: strip_def dropWhile_eq_Nil_conv dropWhile_all)

lemma is_space_newlines: "is_space 10" "is_space 13"
  by (simp_all add: is_space_def)

lemma readlines_blank:
  "(\<forall>l\<in>set (readlines cur cs). strip l = []) \<longleftrightarrow> (\<forall>c\<in>set (cur @ cs). is_space c)"
proof (induction cur cs rule: readlines.induct)
  case (1 cur)
  then show ?case by (simp add: strip_empty_iff)
next
  case (2 cur c cs)
  note ih = this
  show ?case
  proof (cases "c = 13 \<and> cs \<noteq> [] \<and> hd cs = 10")
    case True
    then obtain cs' where cs: "cs = 10 # cs'" by (cases cs) auto
    from ih(1)[OF True] True cs show ?thesis
      by (auto simp: strip_empty_iff is_space_newlines)
  next
    case False
    show ?thesis
    proof (cases "c = 13 \<or> c = 10")
      case True
      from ih(2)[OF False True] False True show ?thesis
        by (auto simp: strip_empty_iff is_space_newlines)
    next
      case nl: False
      from ih(3)[OF False nl] False nl show ?thesis
        by (auto simp: strip_empty_iff)
    qed
  qed
qed

text \<open>The list of passwords is empty exactly when the file holds nothing but whitespace.\<close>

lemma read_passwords_empty_iff: "read_passwords text = [] \<longleftrightarrow> (\<forall>c\<in>set text. is_space c)"
  using readlines_blank[of "[]" "text"]
  by (simp add: read_passwords_def filter_empty_conv)

lemma listing_opened:
  assumes enc: "\<forall>q\<in>set pwds. encodable q"
  shows "opened (check_rainbow_table pwds d (Listing es)) = map fst (processed d es)"
proof -
  let ?init = "\<lparr>cracked_passwords = [], opened = [], logged = []\<rparr>"
  from processed_error_free[OF enc, of d es ?init]
  obtain st' where
    st: "scan_files (processed d es) pwds ?init = (st', None)"
    and op: "opened st' = opened ?init @ map fst (processed d es)"
    by blast
  have "fst (scan_files (rainbow_files d es) pwds ?init) = st'"
    using scan_files_takeWhile[OF enc, of "rainbow_files d es" ?init] st
    by (simp add: processed_def)
  then show ?thesis
    using op by (simp add: check_rainbow_table_fields try_block_def listdir_def)
qed

text \<open>
  C7, as the code has it. The guard against an empty list is the one of line 210, in the
  entry point: when \<open>combined_output.txt\<close> yields no password, the entry point raises
  and logs "No passwords found in the file." before \<open>analyze_passwords\<close> is called, so
  that no table file is opened and no classification is produced. The classification
  pass itself, \<open>check_rainbow_table\<close>, has no guard: given the empty list it opens and
  reads every processed table and returns the empty dictionary.
\<close>

theorem empty_credential_set_guarded_by_main:
  "(read_passwords text = [] \<longrightarrow>
      main before after (Inr text) fs = Logged NoPasswordsFound \<and>
      tables_opened (main before after (Inr text) fs) = [] \<and>
      classification (main before after (Inr text) fs) = None) \<and>
   cracked_passwords (check_rainbow_table [] d (Listing es)) = [] \<and>
   opened (check_rainbow_table [] d (Listing es)) = map fst (processed d es)"
proof (intro conjI impI)
  assume "read_passwords text = []"
  then show "main before after (Inr text) fs = Logged NoPasswordsFound"
    by (simp add: main_def)
  then show "tables_opened (main before after (Inr text) fs) = []"
    and "classification (main before after (Inr text) fs) = None"
    by (simp_all add: tables_opened_def classification_def)
next
  have "fst ` set (cracked_passwords (check_rainbow_table [] d (Listing es))) \<subseteq> {}"
    using listing_keys[of "[]" d es] by simp
  then show "cracked_passwords (check_rainbow_table [] d (Listing es)) = []"
    by simp
next
  show "opened (check_rainbow_table [] d (Listing es)) = map fst (processed d es)"
    by (rule listing_opened) simp
qed

text \<open>
  C7 as stated fails on the classification pass: called with no credential and a
  directory of one table, \<open>check_rainbow_table\<close> raises nothing, reads the table and
  returns a dictionary.
\<close>

theorem empty_credential_set_counterexample:
  "check_rainbow_table [] ''rainbow'' (Listing [(''t1.hash'', table_password)])
     = \<lparr>cracked_passwords = [], opened = [''rainbow/t1.hash''], logged = []\<rparr>"
  by (simp add: run_eval)

text \<open>
  A file of blank lines, whatever the analysis would raise, and a call with the empty
  list on a directory whose second table cannot be opened.
\<close>

theorem empty_credential_set_guarded_by_main_witness:
  "read_passwords (str '' '' @ [10, 9, 13, 10]) = [] \<and>
   main (Some PermissionError) None (Inr (str '' '' @ [10, 9, 13, 10]))
      (Listing [(''t1.hash'', table_password)]) = Logged NoPasswordsFound \<and>
   tables_opened (main (Some PermissionError) None (Inr (str '' '' @ [10, 9, 13, 10]))
      (Listing [(''t1.hash'', table_password)])) = [] \<and>
   classification (main (Some PermissionError) None (Inr (str '' '' @ [10, 9, 13, 10]))
      (Listing [(''t1.hash'', table_password)])) = None \<and>
   opened (check_rainbow_table [] ''rainbow''
      (Listing [(''t1.hash'', table_password), (''t2.hash'', File (Inl PermissionError)),
                (''t3.hash'', table_abc123)])) = [''rainbow/t1.hash'']"
proof -
  have e: "read_passwords (str '' '' @ [10, 9, 13, 10]) = []"
    by (simp add: read_passwords_empty_iff str_def is_space_def)
  have p: "map fst (processed ''rainbow''
      [(''t1.hash'', table_password), (''t2.hash'', File (Inl PermissionError)),
       (''t3.hash'', table_abc123)]) = [''rainbow/t1.hash'']"
    by (simp add: processed_def opens_def rainbow_files_def isfile_def open_rb_def path_join_def
          table_password_def table_abc123_def)
  from empty_credential_set_guarded_by_main
         [of "str '' '' @ [10, 9, 13, 10]" "Some PermissionError" None
             "Listing [(''t1.hash'', table_password)]" "''rainbow''"
             "[(''t1.hash'', table_password), (''t2.hash'', File (Inl PermissionError)),
               (''t3.hash'', table_abc123)]"]
  show ?thesis using e by (simp add: p tables_opened_def classification_def)
qed

text \<open>
  With a password in the file the analysis is entered: it ends before any table is read
  when a statement before line 164 raises, and runs the classification otherwise.
\<close>

lemma main_nonempty:
  assumes "read_passwords text \<noteq> []"
  shows "main (Some e) after (Inr text) fs = Uncaught e None"
    and "main None None (Inr text) fs =
           Analyzed (check_rainbow_table (read_passwords text) ''rainbow'' fs)"
  using assms by (simp_all add: main_def analyze_passwords_def)

section \<open>Claim C8: the lines that \<open>convert_and_combine\<close> writes\<close>
















section \<open>Claim C9: \<open>check_rainbow_table\<close> always returns\<close>

lemma takeWhile_split:
  assumes "\<not> list_all P xs"
  shows "\<exists>bad rest. xs = takeWhile P xs @ bad # rest \<and> \<not> P bad"
proof -
  from assms have ne: "dropWhile P xs \<noteq> []"
    by (simp add: dropWhile_eq_Nil_conv list_all_iff)
  then obtain bad rest where d: "dropWhile P xs = bad # rest"
    by (cases "dropWhile P xs") auto
  from ne have "\<not> P (hd (dropWhile P xs))" by (rule hd_dropWhile)
  with d have "\<not> P bad" by simp
  moreover have "xs = takeWhile P xs @ bad # rest"
    using takeWhile_dropWhile_id[of P xs] d by simp
  ultimately show ?thesis by blast
qed

text \<open>
  C9. Every exception of the body (a directory that cannot be listed, a file that cannot
  be opened, a credential that cannot be encoded) is a value of the model and is handled:
  the function returns a dictionary in every case. When the directory cannot be listed,
  missing directory included, the dictionary is empty. Otherwise it is the dictionary that
  a scan without exception builds from what precedes the error: the credentials before
  the first that cannot be encoded, and the processed tables (the first of them only
  when a credential cannot be encoded).
\<close>

theorem check_rainbow_table_returns:
  "cracked_passwords (check_rainbow_table pwds d (ListError e)) = [] \<and>
   (\<exists>st. scan_files (if list_all encodable pwds then processed d es else take 1 (processed d es))
            (takeWhile encodable pwds) \<lparr>cracked_passwords = [], opened = [], logged = []\<rparr>
          = (st, None) \<and>
         cracked_passwords (check_rainbow_table pwds d (Listing es)) = cracked_passwords st)"
proof
  show "cracked_passwords (check_rainbow_table pwds d (ListError e)) = []"
    by (simp add: list_error_run)
next
  let ?init = "\<lparr>cracked_passwords = [], opened = [], logged = []\<rparr>"
  show "\<exists>st. scan_files (if list_all encodable pwds then processed d es else take 1 (processed d es))
            (takeWhile encodable pwds) ?init = (st, None) \<and>
         cracked_passwords (check_rainbow_table pwds d (Listing es)) = cracked_passwords st"
  proof (cases "list_all encodable pwds")
    case True
    then have enc: "\<forall>q\<in>set pwds. encodable q" by (simp add: list_all_iff)
    then have tw: "takeWhile encodable pwds = pwds" by (simp add: takeWhile_eq_all_conv)
    from processed_error_free[OF enc, of d es ?init]
    obtain st where "scan_files (processed d es) pwds ?init = (st, None)" by blast
    then show ?thesis
      using True by (simp add: tw listing_processed[OF enc])
  next
    case False
    from takeWhile_split[OF False] obtain bad rest where
      split: "pwds = takeWhile encodable pwds @ bad # rest" and bad: "\<not> encodable bad"
      by blast
    let ?good = "takeWhile encodable pwds"
    have good: "\<forall>q\<in>set ?good. encodable q"
      by (auto dest: set_takeWhileD)
    show ?thesis
    proof (cases "rainbow_files d es")
      case Nil
      then show ?thesis
        using False
        by (simp add: processed_def check_rainbow_table_fields try_block_def listdir_def)
    next
      case (Cons x others)
      obtain fp nd where x: "x = (fp, nd)" by (cases x)
      show ?thesis
      proof (cases "open_rb nd")
        case (Inl ex)
        then show ?thesis
          using False Cons x
          by (simp add: processed_def opens_def check_rainbow_table_fields try_block_def
                listdir_def)
      next
        case (Inr content)
        from scan_passwords_encodable[OF good, of "precomputed_hashes content" fp "[]"]
        obtain c where c: "scan_passwords (precomputed_hashes content) fp ?good [] = (c, None)"
          by blast
        have "scan_passwords (precomputed_hashes content) fp (?good @ bad # rest) [] =
                (c, Some UnicodeEncodeError)"
          using scan_passwords_stop[OF good bad, of "precomputed_hashes content" fp rest "[]"] c
          by simp
        then have s: "scan_passwords (precomputed_hashes content) fp pwds [] =
                (c, Some UnicodeEncodeError)"
          using split by simp
        have 1: "cracked_passwords (check_rainbow_table pwds d (Listing es)) = c"
          using Cons x Inr s
          by (simp add: check_rainbow_table_fields try_block_def listdir_def)
        have 2: "scan_files (take 1 (processed d es)) ?good ?init =
                   (\<lparr>cracked_passwords = c, opened = [fp], logged = []\<rparr>, None)"
          using Cons x Inr c by (simp add: processed_def opens_def)
        from 1 2 False show ?thesis by simp
      qed
    qed
  qed
qed

text \<open>
  A run with a lone surrogate in second place and an unreadable second table: the result
  is what the scan of the first table gives for the first credential.
\<close>

theorem check_rainbow_table_returns_witness:
  "cracked_passwords (check_rainbow_table [str ''password'', lone_surrogate, str ''abc123'']
      ''rainbow'' (ListError FileNotFoundError)) = [] \<and>
   (\<exists>st. scan_files [(''rainbow/t1.hash'', table_both)] [str ''password'']
            \<lparr>cracked_passwords = [], opened = [], logged = []\<rparr> = (st, None) \<and>
         cracked_passwords (check_rainbow_table [str ''password'', lone_surrogate, str ''abc123'']
            ''rainbow'' (Listing [(''t1.hash'', table_both), (''t2.hash'', File (Inl PermissionError))]))
           = cracked_passwords st) \<and>
   cracked_passwords (check_rainbow_table [str ''password'', lone_surrogate, str ''abc123'']
            ''rainbow'' (Listing [(''t1.hash'', table_both), (''t2.hash'', File (Inl PermissionError))]))
     = [(str ''password'', ''t1.hash'')]"
proof -
  have p: "processed ''rainbow'' [(''t1.hash'', table_both), (''t2.hash'', File (Inl PermissionError))]
             = [(''rainbow/t1.hash'', table_both)]"
    by (simp add: processed_def opens_def run_eval)
  have t: "takeWhile encodable [str ''password'', lone_surrogate, str ''abc123''] = [str ''password'']"
    by (simp add: encodable_examples)
  have r: "cracked_passwords (check_rainbow_table [str ''password'', lone_surrogate, str ''abc123'']
            ''rainbow'' (Listing [(''t1.hash'', table_both), (''t2.hash'', File (Inl PermissionError))]))
     = [(str ''password'', ''t1.hash'')]"
    by (simp add: run_eval digests)
  show ?thesis
    using check_rainbow_table_returns[of "[str ''password'', lone_surrogate, str ''abc123'']"
        "''rainbow''" FileNotFoundError
        "[(''t1.hash'', table_both), (''t2.hash'', File (Inl PermissionError))]"]
    by (simp add: p t r encodable_examples)
qed

section \<open>Claim C10: the three strength classes\<close>

text \<open>
  C10. \<open>strength_check\<close> returns one of "Weak", "Medium" and "Strong" on every string;
  a password of fewer than 8 characters is "Weak" whatever it is made of; a password of
  at least 8 characters is "Strong" exactly when it holds an uppercase letter, a lowercase
  letter, a digit and a character that is not alphanumeric.
\<close>

theorem strength_check_classes:
  "strength_check U p \<in> {''Weak'', ''Medium'', ''Strong''} \<and>
   (length p < 8 \<longrightarrow> strength_check U p = ''Weak'') \<and>
   (8 \<le> length p \<longrightarrow>
      (strength_check U p = ''Strong'' \<longleftrightarrow>
         (\<exists>c\<in>set p. isupper U c) \<and> (\<exists>c\<in>set p. islower U c) \<and>
         (\<exists>c\<in>set p. isdigit U c) \<and> (\<exists>c\<in>set p. \<not> isalnum U c)))"
  by (simp add: strength_check_def list_ex_iff)

text \<open>A password of four characters, and one of nine with all four kinds of character.\<close>

theorem strength_check_classes_witness:
  "length (str ''Ab1!'') < 8 \<and>
   strength_check \<lparr>ucd_upper = \<lambda>c. False, ucd_lower = \<lambda>c. False, ucd_digit = \<lambda>c. False,
                    ucd_alnum = \<lambda>c. False\<rparr> (str ''Ab1!'') = ''Weak'' \<and>
   8 \<le> length (str ''Passw0rd!'') \<and>
   strength_check \<lparr>ucd_upper = \<lambda>c. False, ucd_lower = \<lambda>c. False, ucd_digit = \<lambda>c. False,
                    ucd_alnum = \<lambda>c. False\<rparr> (str ''Passw0rd!'') = ''Strong''"
  using strength_check_classes
          [of "\<lparr>ucd_upper = \<lambda>c. False, ucd_lower = \<lambda>c. False, ucd_digit = \<lambda>c. False,
                ucd_alnum = \<lambda>c. False\<rparr>" "str ''Ab1!''"]
        strength_check_classes
          [of "\<lparr>ucd_upper = \<lambda>c. False, ucd_lower = \<lambda>c. False, ucd_digit = \<lambda>c. False,
                ucd_alnum = \<lambda>c. False\<rparr>" "str ''Passw0rd!''"]
  by (simp add: str_def isupper_def islower_def isdigit_def isalnum_def)

end
